theory Spec2Isabelle
  imports Main "HOL-Library.Multiset"
begin

section \<open>JavaScript strings\<close>

text \<open>
  A JavaScript string is modelled as a \<^typ>\<open>string\<close>: a list of characters, each a code
  unit in the range 0..255 (ASCII and Latin-1). The rows handled by the server are maps from
  field names to such strings, as \<^verbatim>\<open>csv-parser\<close> produces them. The string methods the
  server calls are modelled on this alphabet.
\<close>

text \<open>White space as \<^verbatim>\<open>String.prototype.trim\<close> and the regular expression class
  \<^verbatim>\<open>\s\<close> see it: TAB, LF, VT, FF, CR, SPACE and NBSP.\<close>

definition is_space :: "char \<Rightarrow> bool" where
  "is_space c = (c \<in> set [CHR 0x09, CHR 0x0A, CHR 0x0B, CHR 0x0C, CHR 0x0D, CHR '' '', CHR 0xA0])"

definition trim :: "string \<Rightarrow> string" where
  "trim s = rev (dropWhile is_space (rev (dropWhile is_space s)))"

text \<open>Upper-case letters of the alphabet: A..Z and the Latin-1 capitals (0xC0..0xDE without
  the multiplication sign 0xD7). Their lower-case form is 32 above, that is, bit 5 set.\<close>

definition is_upper :: "char \<Rightarrow> bool" where
  "is_upper c = (let n = (of_char c :: nat) in
     (65 \<le> n \<and> n \<le> 90) \<or> (192 \<le> n \<and> n \<le> 222 \<and> n \<noteq> 215))"

fun set_bit5 :: "char \<Rightarrow> char" where
  "set_bit5 (Char b0 b1 b2 b3 b4 b5 b6 b7) = Char b0 b1 b2 b3 b4 True b6 b7"

definition lower_char :: "char \<Rightarrow> char" where
  "lower_char c = (if is_upper c then set_bit5 c else c)"

definition toLowerCase :: "string \<Rightarrow> string" where
  "toLowerCase s = map lower_char s"

text \<open>\<^verbatim>\<open>s.split(sep)\<close> for a one-character separator: n separators give n + 1 pieces,
  and the empty string gives one empty piece.\<close>

fun js_split :: "char \<Rightarrow> string \<Rightarrow> string list" where
  "js_split sep [] = [[]]"
| "js_split sep (c # cs) =
     (if c = sep then [] # js_split sep cs
      else (case js_split sep cs of p # ps \<Rightarrow> (c # p) # ps | [] \<Rightarrow> [[c]]))"

text \<open>\<^verbatim>\<open>s.padStart(2, '0')\<close>.\<close>

definition padStart2 :: "string \<Rightarrow> string" where
  "padStart2 s = replicate (2 - length s) (CHR ''0'') @ s"

definition is_digit :: "char \<Rightarrow> bool" where
  "is_digit c = (c \<in> set ''0123456789'')"

definition digit_val :: "char \<Rightarrow> nat" where
  "digit_val c = of_char c - 48"

text \<open>
  The Number \<^verbatim>\<open>parseInt\<close> returns. A Number is a double: every integer of magnitude up
  to 2^53 = 9007199254740992 is one, and \<open>Exact\<close> holds it. A longer run of digits is rounded to a double (to
  an infinity when the run is very long), and how is partly left to the engine: \<open>Rounded n\<close>
  stands for the Number the integer \<open>n\<close> is rounded to, and only \<open>n\<close> is kept. Negative
  zero is not told from zero.
\<close>

datatype js_number = NaN | Exact int | Rounded int

definition isNaN :: "js_number \<Rightarrow> bool" where
  "isNaN num = (num = NaN)"

definition MAX_EXACT :: int where
  "MAX_EXACT = 9007199254740992"

text \<open>
  \<^verbatim>\<open>parseInt(s, 10)\<close>: leading white space is skipped, one sign is read, then the longest
  run of decimal digits; with no digit the result is NaN.
\<close>

definition digits_val :: "string \<Rightarrow> int" where
  "digits_val ds = foldl (\<lambda>acc d. 10 * acc + int (digit_val d)) 0 ds"

definition parseInt10 :: "string \<Rightarrow> js_number" where
  "parseInt10 s =
     (let t = dropWhile is_space s;
          neg = (t \<noteq> [] \<and> hd t = CHR ''-'');
          u = (if t \<noteq> [] \<and> (hd t = CHR ''-'' \<or> hd t = CHR ''+'') then tl t else t);
          ds = takeWhile is_digit u;
          mathInt = (if neg then - digits_val ds else digits_val ds)
      in if ds = [] then NaN
         else if digits_val ds \<le> MAX_EXACT then Exact mathInt
         else Rounded mathInt)"

section \<open>JSON values and \<^verbatim>\<open>JSON.parse\<close>\<close>

text \<open>
  The values a payload holds. \<^verbatim>\<open>JSON.parse\<close> can produce any UTF-16 code unit through a
  \<^verbatim>\<open>\uXXXX\<close> escape, so the strings inside a JSON value are lists of code units
  (\<^typ>\<open>nat\<close>); a string of the alphabet embeds by \<open>units\<close>. A number read by
  \<^verbatim>\<open>JSON.parse\<close> keeps its literal text (\<open>JNum\<close>: its value as a double is not modelled);
  a Number made by \<^verbatim>\<open>parseInt\<close> is a \<open>JInt\<close> when it is an exact integer and a
  \<open>JRounded\<close> when it is the rounding of the integer given. An object is the list of its
  properties in the order of their creation.
\<close>

type_synonym ustring = "nat list"

definition units :: "string \<Rightarrow> ustring" where
  "units s = map of_char s"

datatype json =
    JNull
  | JBool bool
  | JNum string
  | JInt int
  | JRounded int
  | JStr ustring
  | JArr "json list"
  | JObj "(ustring \<times> json) list"

datatype js_error = SyntaxError | TypeError | ReferenceError

text \<open>A Number as a value of a payload. NaN, which the filter keeps out of every array, is
  written \<^verbatim>\<open>null\<close> by JSON.\<close>

fun number_json :: "js_number \<Rightarrow> json" where
  "number_json (Exact n) = JInt n"
| "number_json (Rounded n) = JRounded n"
| "number_json NaN = JNull"

text \<open>Creating or overwriting a property: an existing key keeps its place.\<close>

fun define_prop :: "'k \<Rightarrow> 'v \<Rightarrow> ('k \<times> 'v) list \<Rightarrow> ('k \<times> 'v) list" where
  "define_prop k v [] = [(k, v)]"
| "define_prop k v ((k', v') # ps) =
     (if k' = k then (k, v) # ps else (k', v') # define_prop k v ps)"

text \<open>The assignment \<^verbatim>\<open>obj[k] = v\<close> for a string \<open>v\<close> on an object created by \<^verbatim>\<open>{}\<close>:
  assigning a string to \<^verbatim>\<open>__proto__\<close> reaches the setter of \<^verbatim>\<open>Object.prototype\<close>,
  which ignores it.\<close>

definition set_prop :: "string \<Rightarrow> 'v \<Rightarrow> (string \<times> 'v) list \<Rightarrow> (string \<times> 'v) list" where
  "set_prop k v obj = (if k = ''__proto__'' then obj else define_prop k v obj)"

definition json_ws :: "char \<Rightarrow> bool" where
  "json_ws c = (c \<in> set [CHR '' '', CHR 0x09, CHR 0x0A, CHR 0x0D])"

definition skip_ws :: "string \<Rightarrow> string" where
  "skip_ws s = dropWhile json_ws s"

definition hex_val :: "char \<Rightarrow> nat option" where
  "hex_val c = (let n = (of_char c :: nat) in
     if 48 \<le> n \<and> n \<le> 57 then Some (n - 48)
     else if 97 \<le> n \<and> n \<le> 102 then Some (n - 87)
     else if 65 \<le> n \<and> n \<le> 70 then Some (n - 55)
     else None)"

definition hex4 :: "string \<Rightarrow> nat option" where
  "hex4 s = (case map hex_val (take 4 s) of
       [Some a, Some b, Some c, Some d] \<Rightarrow> Some (((a * 16 + b) * 16 + c) * 16 + d)
     | _ \<Rightarrow> None)"

definition unescape :: "char \<Rightarrow> nat option" where
  "unescape e =
     (if e = CHR 0x22 then Some 34
      else if e = CHR 0x5C then Some 92
      else if e = CHR ''/'' then Some 47
      else if e = CHR ''b'' then Some 8
      else if e = CHR ''f'' then Some 12
      else if e = CHR ''n'' then Some 10
      else if e = CHR ''r'' then Some 13
      else if e = CHR ''t'' then Some 9
      else None)"

text \<open>The characters of a JSON string after its opening quote, up to the closing quote;
  the result is the content and the text that follows.\<close>

fun parse_string_body :: "string \<Rightarrow> (ustring \<times> string) option" where
  "parse_string_body [] = None"
| "parse_string_body (c # cs) =
     (if c = CHR 0x22 then Some ([], cs)
      else if c = CHR 0x5C then
        (case cs of
           [] \<Rightarrow> None
         | e # es \<Rightarrow>
             if e = CHR ''u'' then
               (case hex4 es of
                  None \<Rightarrow> None
                | Some n \<Rightarrow> map_option (\<lambda>(u, r). (n # u, r)) (parse_string_body (drop 4 es)))
             else
               (case unescape e of
                  None \<Rightarrow> None
                | Some n \<Rightarrow> map_option (\<lambda>(u, r). (n # u, r)) (parse_string_body es)))
      else if (of_char c :: nat) < 32 then None
      else map_option (\<lambda>(u, r). (of_char c # u, r)) (parse_string_body cs))"

text \<open>A JSON number: \<^verbatim>\<open>-?(0|[1-9][0-9]*)(\.[0-9]+)?([eE][+-]?[0-9]+)?\<close>. The result is the
  literal and the text that follows.\<close>

definition parse_number :: "string \<Rightarrow> (string \<times> string) option" where
  "parse_number s =
     (let sgn = (if s \<noteq> [] \<and> hd s = CHR ''-'' then ''-'' else []);
          s1 = drop (length sgn) s;
          ip = (if s1 \<noteq> [] \<and> hd s1 = CHR ''0'' then ''0'' else takeWhile is_digit s1);
          s2 = drop (length ip) s1;
          fd = (if s2 \<noteq> [] \<and> hd s2 = CHR ''.'' then takeWhile is_digit (tl s2) else []);
          fp = (if fd = [] then [] else CHR ''.'' # fd);
          s3 = drop (length fp) s2;
          es = (if s3 \<noteq> [] \<and> (hd s3 = CHR ''e'' \<or> hd s3 = CHR ''E'') then
                  (if tl s3 \<noteq> [] \<and> (hd (tl s3) = CHR ''+'' \<or> hd (tl s3) = CHR ''-'')
                   then [hd s3, hd (tl s3)] else [hd s3])
                else []);
          ed = (if es = [] then [] else takeWhile is_digit (drop (length es) s3));
          ep = (if ed = [] then [] else es @ ed);
          s4 = drop (length ep) s3
      in if ip = [] then None
         else if s2 \<noteq> [] \<and> hd s2 = CHR ''.'' \<and> fd = [] then None
         else if es \<noteq> [] \<and> ed = [] then None
         else Some (sgn @ ip @ fp @ ep, s4))"

text \<open>
  The recursive descent over values, array elements and object members. The first argument
  bounds the number of nested calls; \<open>JSON_parse\<close> below starts it above twice the length of
  the text, which no descent exceeds since a value and a member each read a character.
\<close>

fun parse_value :: "nat \<Rightarrow> string \<Rightarrow> (json \<times> string) option"
  and parse_elements :: "nat \<Rightarrow> string \<Rightarrow> (json list \<times> string) option"
  and parse_members :: "nat \<Rightarrow> string \<Rightarrow> ((ustring \<times> json) list \<times> string) option"
where
  "parse_value 0 s = None"
| "parse_value (Suc n) s =
     (case skip_ws s of
        [] \<Rightarrow> None
      | c # cs \<Rightarrow>
          if c = CHR ''{'' then
            (case skip_ws cs of
               [] \<Rightarrow> None
             | d # ds \<Rightarrow>
                 if d = CHR ''}'' then Some (JObj [], ds)
                 else map_option (\<lambda>(ms, r). (JObj (foldl (\<lambda>obj (k, v). define_prop k v obj) [] ms), r))
                        (parse_members n (d # ds)))
          else if c = CHR ''['' then
            (case skip_ws cs of
               [] \<Rightarrow> None
             | d # ds \<Rightarrow>
                 if d = CHR '']'' then Some (JArr [], ds)
                 else map_option (\<lambda>(vs, r). (JArr vs, r)) (parse_elements n (d # ds)))
          else if c = CHR 0x22 then
            map_option (\<lambda>(u, r). (JStr u, r)) (parse_string_body cs)
          else if take 4 (c # cs) = ''true'' then Some (JBool True, drop 4 (c # cs))
          else if take 5 (c # cs) = ''false'' then Some (JBool False, drop 5 (c # cs))
          else if take 4 (c # cs) = ''null'' then Some (JNull, drop 4 (c # cs))
          else map_option (\<lambda>(l, r). (JNum l, r)) (parse_number (c # cs)))"
| "parse_elements 0 s = None"
| "parse_elements (Suc n) s =
     (case parse_value n s of
        None \<Rightarrow> None
      | Some (v, r) \<Rightarrow>
          (case skip_ws r of
             [] \<Rightarrow> None
           | c # cs \<Rightarrow>
               if c = CHR '','' then map_option (\<lambda>(vs, r'). (v # vs, r')) (parse_elements n cs)
               else if c = CHR '']'' then Some ([v], cs)
               else None))"
| "parse_members 0 s = None"
| "parse_members (Suc n) s =
     (case skip_ws s of
        [] \<Rightarrow> None
      | q # qs \<Rightarrow>
          if q \<noteq> CHR 0x22 then None
          else
            (case parse_string_body qs of
               None \<Rightarrow> None
             | Some (k, r) \<Rightarrow>
                 (case skip_ws r of
                    [] \<Rightarrow> None
                  | c # cs \<Rightarrow>
                      if c \<noteq> CHR '':'' then None
                      else
                        (case parse_value n cs of
                           None \<Rightarrow> None
                         | Some (v, r') \<Rightarrow>
                             (case skip_ws r' of
                                [] \<Rightarrow> None
                              | d # ds \<Rightarrow>
                                  if d = CHR '','' then
                                    map_option (\<lambda>(ms, r''). ((k, v) # ms, r'')) (parse_members n ds)
                                  else if d = CHR ''}'' then Some ([(k, v)], ds)
                                  else None)))))"

text \<open>\<^verbatim>\<open>JSON.parse(text)\<close>: one value, white space around it, nothing else; anything
  else raises a SyntaxError.\<close>

definition JSON_parse :: "string \<Rightarrow> js_error + json" where
  "JSON_parse text =
     (case parse_value (2 * length text + 2) text of
        None \<Rightarrow> Inl SyntaxError
      | Some (v, r) \<Rightarrow> if skip_ws r = [] then Inr v else Inl SyntaxError)"

section \<open>Transforming a row: \<^verbatim>\<open>mapRowToPayload\<close>\<close>

text \<open>The configuration read from the environment at start-up. A variable is a string or
  is not set; the server tests each for truthiness, so an empty string counts as not set.\<close>

record env =
  COMPANY_UUID :: "string option"
  REFERRED_FROM_COMPANY_UUID :: "string option"
  TAGS :: "string option"
  COUNSEL :: "string option"
  FEESPLIT :: "string option"
  TOTALFEE :: "string option"

definition truthy :: "string option \<Rightarrow> bool" where
  "truthy v = (case v of None \<Rightarrow> False | Some s \<Rightarrow> s \<noteq> [])"

type_synonym raw_row = "(string \<times> string) list"
type_synonym payload = "(string \<times> json) list"

definition arrayFields :: "string list" where
  "arrayFields = [''products'', ''conditions'', ''information'', ''tags'']"

definition intArrayFields :: "string list" where
  "intArrayFields = [''conditions'', ''information'']"

definition dateFields :: "string list" where
  "dateFields = [''birthday_injured'', ''birthday'', ''date_of_accident'', ''incident_date'']"

text \<open>\<^verbatim>\<open>formatDate\<close>: m/d/yyyy to yyyy-mm-dd when the text has exactly three parts between
  slashes, the text itself otherwise.\<close>

definition formatDate :: "string \<Rightarrow> string" where
  "formatDate dateStr =
     (if dateStr = [] \<or> trim dateStr = [] then dateStr
      else (case js_split (CHR ''/'') dateStr of
              [p0, p1, p2] \<Rightarrow> p2 @ ''-'' @ padStart2 p0 @ ''-'' @ padStart2 p1
            | _ \<Rightarrow> dateStr))"

text \<open>\<^verbatim>\<open>cleanArrayValue\<close>: \<^verbatim>\<open>str.replace(/^\[|\]$/g, '').trim()\<close>. The pattern removes an
  opening bracket that is the first character and a closing bracket that is the last one.\<close>

definition cleanArrayValue :: "string \<Rightarrow> string" where
  "cleanArrayValue str =
     (let s1 = (if str \<noteq> [] \<and> hd str = CHR ''['' then tl str else str);
          s2 = (if s1 \<noteq> [] \<and> last s1 = CHR '']'' then butlast s1 else s1)
      in trim s2)"

subsection \<open>The meta field, first strategy: rewriting to JSON\<close>

text \<open>\<^verbatim>\<open>.replace(/\{/g, '{"')\<close> and \<^verbatim>\<open>.replace(/:/g, '":"')\<close>: every occurrence of one
  character is replaced.\<close>

definition replace_char :: "char \<Rightarrow> string \<Rightarrow> string \<Rightarrow> string" where
  "replace_char x by s = concat (map (\<lambda>c. if c = x then by else [c]) s)"

text \<open>\<^verbatim>\<open>.replace(/,\s*/g, '","')\<close>: a comma and the white space after it.\<close>

function replace_comma_ws :: "string \<Rightarrow> string" where
  "replace_comma_ws [] = []"
| "replace_comma_ws (c # cs) =
     (if c = CHR '','' then [CHR 0x22, CHR '','', CHR 0x22] @ replace_comma_ws (dropWhile is_space cs)
      else c # replace_comma_ws cs)"
  by pat_completeness auto
termination
  by (relation "measure length") (auto simp: less_Suc_eq_le length_dropWhile_le)

text \<open>\<^verbatim>\<open>.replace(/\s*\}/g, '"}')\<close>: a closing brace and the white space before it. At a
  position the pattern matches exactly when the white space starting there runs up to a
  closing brace.\<close>

function replace_ws_rbrace :: "string \<Rightarrow> string" where
  "replace_ws_rbrace [] = []"
| "replace_ws_rbrace (c # cs) =
     (let r = dropWhile is_space (c # cs) in
      if r \<noteq> [] \<and> hd r = CHR ''}'' then [CHR 0x22, CHR ''}''] @ replace_ws_rbrace (tl r)
      else c # replace_ws_rbrace cs)"
  by pat_completeness auto
termination
proof (relation "measure length")
  fix c :: char and cs r
  assume r: "r = dropWhile is_space (c # cs)" and "r \<noteq> [] \<and> hd r = CHR ''}''"
  then have "length (tl r) < length r" by simp
  moreover have "length r \<le> length (c # cs)" unfolding r by (rule length_dropWhile_le)
  ultimately show "(tl r, c # cs) \<in> measure length" by simp
qed auto

text \<open>\<^verbatim>\<open>.replace(/"\s+"/g, '":"')\<close>: two double quotes with only white space, and some,
  between them.\<close>

function replace_quote_ws_quote :: "string \<Rightarrow> string" where
  "replace_quote_ws_quote [] = []"
| "replace_quote_ws_quote (c # cs) =
     (let r = dropWhile is_space cs in
      if c = CHR 0x22 \<and> cs \<noteq> [] \<and> is_space (hd cs) \<and> r \<noteq> [] \<and> hd r = CHR 0x22
      then [CHR 0x22, CHR '':'', CHR 0x22] @ replace_quote_ws_quote (tl r)
      else c # replace_quote_ws_quote cs)"
  by pat_completeness auto
termination
proof (relation "measure length")
  fix c :: char and cs r
  assume r: "r = dropWhile is_space cs"
    and "c = CHR 0x22 \<and> cs \<noteq> [] \<and> is_space (hd cs) \<and> r \<noteq> [] \<and> hd r = CHR 0x22"
  then have "length (tl r) < length r" by simp
  moreover have "length r \<le> length cs" unfolding r by (rule length_dropWhile_le)
  ultimately show "(tl r, c # cs) \<in> measure length" by simp
qed auto

definition toJsonText :: "string \<Rightarrow> string" where
  "toJsonText metaStr =
     replace_quote_ws_quote
       (replace_ws_rbrace
          (replace_comma_ws
             (replace_char (CHR '':'') [CHR 0x22, CHR '':'', CHR 0x22]
                (replace_char (CHR ''{'') [CHR ''{'', CHR 0x22] metaStr))))"

definition strategyA :: "string \<Rightarrow> js_error + json" where
  "strategyA raw = JSON_parse (toJsonText (trim raw))"

subsection \<open>The meta field, second strategy: splitting into pairs\<close>

text \<open>The braces are removed wherever they stand, the text is trimmed and split on commas;
  each piece is split on colons and its first two parts, trimmed, are a key and a value. A
  pair enters the object when both are non-empty. No step can raise on a string, so the
  result is always \<open>Inr\<close>.\<close>

definition add_pair :: "(string \<times> string) list \<Rightarrow> string \<Rightarrow> (string \<times> string) list" where
  "add_pair obj pair =
     (case map trim (js_split (CHR '':'') pair) of
        k # v # _ \<Rightarrow> if k \<noteq> [] \<and> v \<noteq> [] then set_prop k v obj else obj
      | _ \<Rightarrow> obj)"

definition strategyB :: "string \<Rightarrow> js_error + json" where
  "strategyB raw =
     Inr (JObj (map (\<lambda>(k, v). (units k, JStr (units v)))
       (foldl add_pair []
          (js_split (CHR '','')
             (trim (filter (\<lambda>c. c \<noteq> CHR ''{'' \<and> c \<noteq> CHR ''}'') raw))))))"

definition metaValue :: "string \<Rightarrow> js_error + json" where
  "metaValue raw =
     (case strategyA raw of
        Inr v \<Rightarrow> Inr v
      | Inl error \<Rightarrow>
          (case strategyB raw of
             Inr cleanedMeta \<Rightarrow> Inr cleanedMeta
           | Inl e \<Rightarrow> Inr (JStr (units raw))))"

subsection \<open>The loop over the fields and the overrides\<close>

text \<open>The body of the loop for one field with a non-empty value.\<close>

definition fieldValue :: "string \<Rightarrow> string \<Rightarrow> js_error + json" where
  "fieldValue key raw =
     (if key = ''meta'' then metaValue raw
      else if key \<in> set arrayFields then
        (let cleanedArray = map cleanArrayValue (js_split (CHR '','') raw) in
         if key \<in> set intArrayFields
         then Inr (JArr (map number_json
                (filter (\<lambda>num. \<not> isNaN num) (map (\<lambda>item. parseInt10 item) cleanedArray))))
         else Inr (JArr (map (\<lambda>item. JStr (units item)) cleanedArray)))
      else if key \<in> set dateFields then Inr (JStr (units (formatDate raw)))
      else Inr (JStr (units raw)))"

fun mapFields :: "raw_row \<Rightarrow> payload \<Rightarrow> js_error + payload" where
  "mapFields [] payload = Inr payload"
| "mapFields ((key, raw) # row) payload =
     (if raw = [] then mapFields row payload
      else (case fieldValue key raw of
              Inl e \<Rightarrow> Inl e
            | Inr v \<Rightarrow> mapFields row (set_prop key v payload)))"

definition override :: "string option \<Rightarrow> string \<Rightarrow> (string \<Rightarrow> json) \<Rightarrow> payload \<Rightarrow> payload" where
  "override var key mk payload =
     (if truthy var then define_prop key (mk (the var)) payload else payload)"

definition applyOverrides :: "env \<Rightarrow> payload \<Rightarrow> payload" where
  "applyOverrides e payload =
     override (TOTALFEE e) ''totalfee'' (\<lambda>s. JStr (units s))
       (override (FEESPLIT e) ''feesplit'' (\<lambda>s. JStr (units s))
          (override (COUNSEL e) ''counsel'' (\<lambda>s. JStr (units s))
             (override (TAGS e) ''tags'' (\<lambda>s. JArr [JStr (units s)])
                (override (REFERRED_FROM_COMPANY_UUID e) ''referred_from_company_uuid'' (\<lambda>s. JStr (units s))
                   (override (COMPANY_UUID e) ''company_uuid'' (\<lambda>s. JStr (units s)) payload)))))"

definition mapRowToPayload :: "env \<Rightarrow> raw_row \<Rightarrow> js_error + payload" where
  "mapRowToPayload e row =
     (case mapFields row [] of
        Inl err \<Rightarrow> Inl err
      | Inr payload \<Rightarrow> Inr (applyOverrides e payload))"

section \<open>Uploading a batch: \<^verbatim>\<open>createCase\<close> and the sequential loop\<close>

text \<open>
  The remote service is a function of its own state: \<^verbatim>\<open>axios.post\<close> either resolves with
  the response data or rejects with an error, and the service moves to a new state. Of a
  rejection the server reads \<^verbatim>\<open>error.response?.data?.message\<close>,
  \<^verbatim>\<open>error.response?.data?.error\<close> and \<^verbatim>\<open>error.message\<close>.
\<close>

record axios_error =
  response_message :: "string option"
  response_error :: "string option"
  message :: string

datatype post_result = Resolved json | Rejected axios_error

type_synonym 'w remote = "'w \<Rightarrow> payload \<Rightarrow> post_result \<times> 'w"

text \<open>What \<^verbatim>\<open>createCase\<close> returns: \<^verbatim>\<open>{ success: true, index, data }\<close> or
  \<^verbatim>\<open>{ success: false, index, error }\<close>.\<close>

datatype outcome = Success nat json | Failure nat string

fun success :: "outcome \<Rightarrow> bool" where
  "success (Success i d) = True"
| "success (Failure i m) = False"

fun index :: "outcome \<Rightarrow> nat" where
  "index (Success i d) = i"
| "index (Failure i m) = i"

text \<open>The calls the loop makes, in the order it makes them: \<^verbatim>\<open>createCase(row, i)\<close>,
  \<^verbatim>\<open>axios.post\<close> for row \<open>i\<close>, \<^verbatim>\<open>console.error\<close> for row \<open>i\<close>, \<^verbatim>\<open>delay(ms)\<close>
  and the progress line.\<close>

datatype effect =
    Called nat
  | Posted nat payload
  | ConsoleError nat
  | Delayed nat
  | Progress nat nat

definition RATE_LIMIT_DELAY :: nat where
  "RATE_LIMIT_DELAY = 400"

text \<open>Truthiness of a value, as \<^verbatim>\<open>!payload.litigation_id\<close> tests it. A number literal is
  zero when its mantissa has no digit other than 0.\<close>

fun js_truthy :: "json \<Rightarrow> bool" where
  "js_truthy JNull = False"
| "js_truthy (JBool b) = b"
| "js_truthy (JNum l) = (\<exists>c \<in> set (takeWhile (\<lambda>c. c \<noteq> CHR ''e'' \<and> c \<noteq> CHR ''E'') l). c \<in> set ''123456789'')"
| "js_truthy (JInt n) = (n \<noteq> 0)"
| "js_truthy (JRounded n) = True"
| "js_truthy (JStr u) = (u \<noteq> [])"
| "js_truthy (JArr vs) = True"
| "js_truthy (JObj ps) = True"

definition has_field :: "payload \<Rightarrow> string \<Rightarrow> bool" where
  "has_field payload key = (case map_of payload key of None \<Rightarrow> False | Some v \<Rightarrow> js_truthy v)"

text \<open>The message of an error raised inside \<^verbatim>\<open>mapRowToPayload\<close> is the engine's text
  for it; only its kind is kept.\<close>

fun js_error_message :: "js_error \<Rightarrow> string" where
  "js_error_message SyntaxError = ''SyntaxError''"
| "js_error_message TypeError = ''TypeError''"
| "js_error_message ReferenceError = ''ReferenceError''"

definition errorMsg :: "axios_error \<Rightarrow> string" where
  "errorMsg error =
     (if truthy (response_message error) then the (response_message error)
      else if truthy (response_error error) then the (response_error error)
      else message error)"

definition createCase ::
  "'w remote \<Rightarrow> env \<Rightarrow> raw_row \<Rightarrow> nat \<Rightarrow> 'w \<Rightarrow> outcome \<times> effect list \<times> 'w" where
  "createCase post e row i w =
     (case mapRowToPayload e row of
        Inl err \<Rightarrow> (Failure i (js_error_message err), [Called i, ConsoleError i], w)
      | Inr payload \<Rightarrow>
          if \<not> has_field payload ''litigation_id'' then
            (Failure i ''Missing required field: litigation_id'', [Called i, ConsoleError i], w)
          else if \<not> has_field payload ''status_id'' then
            (Failure i ''Missing required field: status_id'', [Called i, ConsoleError i], w)
          else
            (case post w payload of
               (Resolved d, w') \<Rightarrow> (Success i d, [Called i, Posted i payload], w')
             | (Rejected error, w') \<Rightarrow>
                 (Failure i (errorMsg error), [Called i, Posted i payload, ConsoleError i], w')))"

record 'w run =
  world :: 'w
  processed :: "outcome list"
  failures :: "outcome list"
  effects :: "effect list"

text \<open>One turn of the \<^verbatim>\<open>for\<close> loop at index \<open>i\<close>, for \<open>i\<close> below the number of rows.\<close>

definition uploadStep :: "'w remote \<Rightarrow> env \<Rightarrow> raw_row list \<Rightarrow> nat \<Rightarrow> 'w run \<Rightarrow> 'w run" where
  "uploadStep post e results i st =
     (case createCase post e (results ! i) i (world st) of
        (result, effs, w') \<Rightarrow>
          st\<lparr> world := w',
              processed := (if success result then processed st @ [result] else processed st),
              failures := (if success result then failures st else failures st @ [result]),
              effects := effects st @ effs
                @ (if int i < int (length results) - 1 then [Delayed RATE_LIMIT_DELAY] else [])
                @ (if (i + 1) mod 10 = 0 then [Progress (i + 1) (length results)] else []) \<rparr>)"

function uploadLoop :: "'w remote \<Rightarrow> env \<Rightarrow> raw_row list \<Rightarrow> nat \<Rightarrow> 'w run \<Rightarrow> 'w run" where
  "uploadLoop post e results i st =
     (if i < length results then uploadLoop post e results (i + 1) (uploadStep post e results i st)
      else st)"
  by pat_completeness auto
termination
  by (relation "measure (\<lambda>(post, e, results, i, st). length results - i)") auto

declare uploadLoop.simps [simp del]

text \<open>The report sent back: the numbers of the message
  \<^verbatim>\<open>Processed N rows. Success: S, Failures: F\<close> and, for each failure, the 1-based row and
  the error.\<close>

record report =
  totalRows :: nat
  successCount :: nat
  failureCount :: nat
  failed :: "(nat \<times> string) list"

text \<open>A success has no \<^verbatim>\<open>error\<close> field; the list of failures holds none.\<close>

fun failureLine :: "outcome \<Rightarrow> nat \<times> string" where
  "failureLine (Failure i m) = (i + 1, m)"
| "failureLine (Success i d) = (i + 1, [])"

definition submitAll :: "'w remote \<Rightarrow> env \<Rightarrow> raw_row list \<Rightarrow> 'w \<Rightarrow> 'w run" where
  "submitAll post e results w =
     uploadLoop post e results 0 \<lparr>world = w, processed = [], failures = [], effects = []\<rparr>"

definition upload :: "'w remote \<Rightarrow> env \<Rightarrow> raw_row list \<Rightarrow> 'w \<Rightarrow> report" where
  "upload post e results w =
     (let st = submitAll post e results w in
      \<lparr> totalRows = length results,
        successCount = length (processed st),
        failureCount = length (failures st),
        failed = map failureLine (failures st) \<rparr>)"

section \<open>Fetching every page of the case list\<close>

text \<open>
  The body of a list response is an object or a bare array. Of an object the server reads
  \<^verbatim>\<open>data.data\<close> (an array, or absent), \<^verbatim>\<open>data.total\<close>, \<^verbatim>\<open>data.last_page\<close> and
  \<^verbatim>\<open>data.hasMore\<close>; an array has none of these properties. A request resolves with a body or
  is rejected. The remote service is a function from the page asked for to the result; each
  loop asks for a page at most once.
\<close>

record 'c page_body =
  body_data :: "'c list option"
  body_total :: "nat option"
  body_last_page :: "nat option"
  body_hasMore :: "bool option"

datatype 'c body = Listing "'c list" | Envelope "'c page_body"

datatype 'c get_result = Page "'c body" | RequestFailed

datatype fetch_effect = Get nat | Wait nat

definition truthy_num :: "nat option \<Rightarrow> bool" where
  "truthy_num v = (case v of None \<Rightarrow> False | Some n \<Rightarrow> n \<noteq> 0)"

fun dataField :: "'c body \<Rightarrow> 'c list option" where
  "dataField (Listing cs) = None"
| "dataField (Envelope b) = body_data b"

fun totalField :: "'c body \<Rightarrow> nat option" where
  "totalField (Listing cs) = None"
| "totalField (Envelope b) = body_total b"

fun lastPageField :: "'c body \<Rightarrow> nat option" where
  "lastPageField (Listing cs) = None"
| "lastPageField (Envelope b) = body_last_page b"

fun hasMoreField :: "'c body \<Rightarrow> bool option" where
  "hasMoreField (Listing cs) = None"
| "hasMoreField (Envelope b) = body_hasMore b"

text \<open>\<^verbatim>\<open>data.data || []\<close>.\<close>

definition page_cases :: "'c body \<Rightarrow> 'c list" where
  "page_cases d = (case dataField d of None \<Rightarrow> [] | Some cases \<Rightarrow> cases)"


definition page_limit :: nat where
  "page_limit = 100"

subsection \<open>\<^verbatim>\<open>fetchAllSimplyConvertCases\<close>\<close>

text \<open>
  The loop has no bound on the number of requests, so the model counts them down from a
  budget and is \<open>None\<close> when the budget runs out before the loop ends. A rejected request
  ends the function with an empty list. The result holds the cases and the requests and
  waits made.
\<close>

fun fetchAllLoop ::
  "nat \<Rightarrow> (nat \<Rightarrow> 'c get_result) \<Rightarrow> nat \<Rightarrow> 'c list \<Rightarrow> fetch_effect list
     \<Rightarrow> ('c list \<times> fetch_effect list) option" where
  "fetchAllLoop 0 srv page allCases tr = None"
| "fetchAllLoop (Suc budget) srv page allCases tr =
     (case srv page of
        RequestFailed \<Rightarrow> Some ([], tr @ [Get page])
      | Page res \<Rightarrow>
          (let cases = page_cases res;
               hasMore = (length cases > 0 \<and>
                          (length cases = page_limit \<or> hasMoreField res = Some True))
           in if hasMore
              then fetchAllLoop budget srv (page + 1) (allCases @ cases) (tr @ [Get page, Wait 200])
              else Some (allCases @ cases, tr @ [Get page])))"

definition fetchAllSimplyConvertCases ::
  "nat \<Rightarrow> string option \<Rightarrow> (nat \<Rightarrow> 'c get_result) \<Rightarrow> ('c list \<times> fetch_effect list) option" where
  "fetchAllSimplyConvertCases budget api_key srv =
     (if \<not> truthy api_key then Some ([], []) else fetchAllLoop budget srv 0 [] [])"

subsection \<open>The loop of \<^verbatim>\<open>GET /cases\<close> with a ceiling on the requests\<close>




subsection \<open>The loops that read a total, a last page or the size of the page\<close>





subsection \<open>The bulk fetch of the second \<^verbatim>\<open>/check-duplicates\<close> handler\<close>

text \<open>
  The same file registers a second handler for \<^verbatim>\<open>POST /check-duplicates\<close>. The first
  one answers every request and passes none on, so the server never runs the second
  handler; its loop is modelled as it is written. The page counter starts at 1, and the loop
  has no test on the size of the page before it reads the total or the last page. A rejected
  request leaves the handler through its \<^verbatim>\<open>catch\<close>, here \<open>Inl\<close> with the requests made.
\<close>

definition bulkHasMore :: "'c body \<Rightarrow> nat \<Rightarrow> nat \<Rightarrow> bool" where
  "bulkHasMore d fetched page =
     (if truthy_num (totalField d) then fetched < the (totalField d)
      else if truthy_num (lastPageField d) then page < the (lastPageField d)
      else length (page_cases d) \<ge> page_limit)"

fun bulkFetchLoop ::
  "nat \<Rightarrow> (nat \<Rightarrow> 'c get_result) \<Rightarrow> nat \<Rightarrow> 'c list \<Rightarrow> fetch_effect list
     \<Rightarrow> (fetch_effect list + 'c list \<times> fetch_effect list) option" where
  "bulkFetchLoop 0 srv page allCases tr = None"
| "bulkFetchLoop (Suc budget) srv page allCases tr =
     (case srv page of
        RequestFailed \<Rightarrow> Some (Inl (tr @ [Get page]))
      | Page d \<Rightarrow>
          (let cases = page_cases d;
               hasMorePages = bulkHasMore d (length (allCases @ cases)) page
           in if hasMorePages
              then bulkFetchLoop budget srv (page + 1) (allCases @ cases) (tr @ [Get page, Wait 200])
              else Some (Inr (allCases @ cases, tr @ [Get page]))))"

definition bulkFetch ::
  "nat \<Rightarrow> (nat \<Rightarrow> 'c get_result) \<Rightarrow> (fetch_effect list + 'c list \<times> fetch_effect list) option" where
  "bulkFetch budget srv = bulkFetchLoop budget srv 1 [] []"

section \<open>Detecting duplicates\<close>

text \<open>The three fields of an existing case the detectors read; a field is a string or is
  absent.\<close>

record remote_case =
  fname_injured :: "string option"
  lname_injured :: "string option"
  email_injured :: "string option"

text \<open>\<^verbatim>\<open>(row.a || row.b || '').toLowerCase()\<close>.\<close>

definition candidate :: "raw_row \<Rightarrow> string \<Rightarrow> string \<Rightarrow> string" where
  "candidate row a b =
     toLowerCase (if truthy (map_of row a) then the (map_of row a)
                  else if truthy (map_of row b) then the (map_of row b)
                  else [])"

subsection \<open>Matching on the three fields against the fetched cases\<close>

definition matchesField :: "string \<Rightarrow> string option \<Rightarrow> bool" where
  "matchesField x caseField = (x = [] \<or> (truthy caseField \<and> toLowerCase (the caseField) = x))"

definition isDuplicate :: "remote_case list \<Rightarrow> raw_row \<Rightarrow> bool" where
  "isDuplicate allCases row =
     (let fname = candidate row ''fname_injured'' ''fname'';
          lname = candidate row ''lname_injured'' ''lname'';
          email = candidate row ''email_injured'' ''email''
      in if fname = [] \<and> lname = [] \<and> email = [] then False
         else list_ex (\<lambda>caseItem.
                matchesField fname (fname_injured caseItem) \<and>
                matchesField lname (lname_injured caseItem) \<and>
                matchesField email (email_injured caseItem)) allCases)"

definition findDuplicates :: "raw_row list \<Rightarrow> remote_case list \<Rightarrow> nat list" where
  "findDuplicates rows allCases = filter (\<lambda>i. isDuplicate allCases (rows ! i)) [0..<length rows]"

subsection \<open>Looking the row up in a map keyed by email\<close>

text \<open>
  This is the matching of the second \<^verbatim>\<open>/check-duplicates\<close> handler, after its bulk
  fetch. The map holds, for each lower-cased non-empty email, the last case with it. A row is
  flagged when the case under its email has its first and last name. Reading the name of a
  case that has none raises a TypeError, which rejects the whole check.
\<close>

text \<open>
  The handler wraps each row's task in \<^verbatim>\<open>pLimit(10)\<close>. The file neither declares nor
  requires \<^verbatim>\<open>pLimit\<close>, so as the file stands the call raises a ReferenceError before any
  task is made: \<open>NotDeclared\<close>. The binding is a parameter of the model; \<open>BoundedPool\<close>
  is the binding the call is written for, a pool of at most 10 running tasks that runs
  every task it is given, after which \<^verbatim>\<open>Promise.all\<close> returns the results in row order.
\<close>

datatype pLimit_binding = NotDeclared | BoundedPool

definition buildCaseMap :: "remote_case list \<Rightarrow> (string \<rightharpoonup> remote_case)" where
  "buildCaseMap allCases =
     foldl (\<lambda>m c. if truthy (email_injured c) then m(toLowerCase (the (email_injured c)) \<mapsto> c) else m)
       Map.empty allCases"

definition emailTask :: "(string \<rightharpoonup> remote_case) \<Rightarrow> raw_row \<Rightarrow> nat \<Rightarrow> js_error + nat option" where
  "emailTask caseMap row i =
     (let fname = candidate row ''fname_injured'' ''fname'';
          lname = candidate row ''lname_injured'' ''lname'';
          email = candidate row ''email_injured'' ''email''
      in if fname = [] \<and> lname = [] \<and> email = [] then Inr None
         else (case caseMap email of
                 None \<Rightarrow> Inr None
               | Some existing \<Rightarrow>
                   (case fname_injured existing of
                      None \<Rightarrow> Inl TypeError
                    | Some f \<Rightarrow>
                        if toLowerCase f \<noteq> fname then Inr None
                        else (case lname_injured existing of
                                None \<Rightarrow> Inl TypeError
                              | Some l \<Rightarrow> if toLowerCase l = lname then Inr (Some i) else Inr None))))"

definition findDuplicatesByEmail ::
  "pLimit_binding \<Rightarrow> raw_row list \<Rightarrow> remote_case list \<Rightarrow> js_error + nat list" where
  "findDuplicatesByEmail pLimit rows allCases =
     (let caseMap = buildCaseMap allCases in
      case pLimit of
        NotDeclared \<Rightarrow> Inl ReferenceError
      | BoundedPool \<Rightarrow>
          (let tasks = map (\<lambda>i. emailTask caseMap (rows ! i) i) [0..<length rows]
           in if list_ex isl tasks then Inl TypeError
              else Inr (List.map_filter (\<lambda>t. case t of Inr x \<Rightarrow> x | Inl err \<Rightarrow> None) tasks)))"

text \<open>What the handler answers: the flagged rows, or from its \<^verbatim>\<open>catch\<close> the status 500
  with \<^verbatim>\<open>duplicates: []\<close>.\<close>

record duplicates_response =
  resp_status :: nat
  resp_duplicates :: "nat list"

definition emailCheckResponse ::
  "pLimit_binding \<Rightarrow> raw_row list \<Rightarrow> remote_case list \<Rightarrow> duplicates_response" where
  "emailCheckResponse pLimit rows allCases =
     (case findDuplicatesByEmail pLimit rows allCases of
        Inl error \<Rightarrow> \<lparr> resp_status = 500, resp_duplicates = [] \<rparr>
      | Inr duplicates \<Rightarrow> \<lparr> resp_status = 200, resp_duplicates = duplicates \<rparr>)"

section \<open>Notions used in the statements\<close>

text \<open>The keys an environment overrides.\<close>

definition overridden :: "env \<Rightarrow> string \<Rightarrow> bool" where
  "overridden e key =
     ((key = ''company_uuid'' \<and> truthy (COMPANY_UUID e)) \<or>
      (key = ''referred_from_company_uuid'' \<and> truthy (REFERRED_FROM_COMPANY_UUID e)) \<or>
      (key = ''tags'' \<and> truthy (TAGS e)) \<or>
      (key = ''counsel'' \<and> truthy (COUNSEL e)) \<or>
      (key = ''feesplit'' \<and> truthy (FEESPLIT e)) \<or>
      (key = ''totalfee'' \<and> truthy (TOTALFEE e)))"

text \<open>Projections of the trace of a batch: the calls of \<^verbatim>\<open>createCase\<close>, the calls of
  \<^verbatim>\<open>delay\<close>, and both; and the trace a paced loop over the rows \<open>i..<n\<close> leaves of them.\<close>

fun is_call :: "effect \<Rightarrow> bool" where
  "is_call (Called i) = True"
| "is_call _ = False"

fun is_delay :: "effect \<Rightarrow> bool" where
  "is_delay (Delayed ms) = True"
| "is_delay _ = False"

fun pacing :: "effect \<Rightarrow> bool" where
  "pacing (Called i) = True"
| "pacing (Delayed ms) = True"
| "pacing _ = False"

definition paced_calls :: "nat \<Rightarrow> nat \<Rightarrow> effect list" where
  "paced_calls i n =
     concat (map (\<lambda>j. Called j # (if j + 1 < n then [Delayed RATE_LIMIT_DELAY] else [])) [i..<n])"






subsection \<open>A worked batch\<close>

text \<open>Three rows, the second without a status; a remote service that accepts every case
  and counts them; an environment that sets a company and a tag, and one that sets nothing.\<close>

definition demo_env :: env where
  "demo_env = \<lparr> COMPANY_UUID = Some ''c-1'', REFERRED_FROM_COMPANY_UUID = None,
                 TAGS = Some ''vip'', COUNSEL = None, FEESPLIT = Some [], TOTALFEE = None \<rparr>"

definition plain_env :: env where
  "plain_env = \<lparr> COMPANY_UUID = None, REFERRED_FROM_COMPANY_UUID = None,
                  TAGS = None, COUNSEL = None, FEESPLIT = None, TOTALFEE = None \<rparr>"

definition demo_rows :: "raw_row list" where
  "demo_rows =
     [[(''litigation_id'', ''7''), (''status_id'', ''2''), (''products'', ''[a, b],c'')],
      [(''litigation_id'', ''7''), (''status_id'', []), (''conditions'', ''1,2,abc,4'')],
      [(''litigation_id'', ''8''), (''status_id'', ''1''), (''birthday'', ''3/4/2024'')]]"

definition demo_remote :: "nat remote" where
  "demo_remote w payload = (Resolved (JInt (int w)), w + 1)"

subsection \<open>Worked inputs for the fetch loops and the detectors\<close>

text \<open>One existing case; a remote service whose first page (page 1) has no item but
  announces a total of 5, and whose other pages are empty; and one whose every page has no
  item and announces a total of 5, a last page 9 and more to come.\<close>

definition demo_cases :: "remote_case list" where
  "demo_cases = [\<lparr> fname_injured = Some ''jane'', lname_injured = Some ''doe'',
                   email_injured = Some ''x@y.com'' \<rparr>]"

definition total_without_items :: "nat \<Rightarrow> unit get_result" where
  "total_without_items page =
     (if page = 1
      then Page (Envelope \<lparr> body_data = Some [], body_total = Some 5, body_last_page = None,
                           body_hasMore = None \<rparr>)
      else Page (Envelope \<lparr> body_data = Some [], body_total = None, body_last_page = None,
                           body_hasMore = None \<rparr>))"

definition empty_pages_with_total :: "nat \<Rightarrow> unit get_result" where
  "empty_pages_with_total page =
     Page (Envelope \<lparr> body_data = Some [], body_total = Some 5, body_last_page = Some 9,
                      body_hasMore = Some True \<rparr>)"

section \<open>Properties of the transformation\<close>

lemma strategyB_total: "\<exists>v. strategyB raw = Inr v"
  by (simp add: strategyB_def)

lemma metaValue_total: "\<exists>v. metaValue raw = Inr v"
  by (auto simp: metaValue_def split: sum.splits)

lemma fieldValue_total: "\<exists>v. fieldValue key raw = Inr v"
  using metaValue_total [of raw] by (auto simp: fieldValue_def Let_def)

lemma mapFields_total: "\<exists>p'. mapFields row p = Inr p'"
proof (induction row arbitrary: p)
  case Nil
  then show ?case by simp
next
  case (Cons kv row)
  obtain key raw where kv: "kv = (key, raw)" by (cases kv)
  obtain v where v: "fieldValue key raw = Inr v" using fieldValue_total by blast
  show ?case using Cons [of p] Cons [of "set_prop key v p"] by (simp add: kv v)
qed

text \<open>
  Claim C4. For every row, \<^verbatim>\<open>mapRowToPayload\<close> returns a payload and raises nothing: the
  one operation that can raise on a string, \<^verbatim>\<open>JSON.parse\<close>, is inside a \<^verbatim>\<open>try\<close>, and
  dates, arrays and meta strings of any shape are mapped to some value.
\<close>

theorem mapRowToPayload_total: "\<exists>payload. mapRowToPayload e row = Inr payload"
  using mapFields_total [of row "[]"] by (auto simp: mapRowToPayload_def)

lemma map_of_define_prop:
  "map_of (define_prop k v ps) k' = (if k' = k then Some v else map_of ps k')"
  by (induction ps) auto

lemma map_of_set_prop:
  "map_of (set_prop k v ps) k' = (if k' = k \<and> k \<noteq> ''__proto__'' then Some v else map_of ps k')"
  by (simp add: set_prop_def map_of_define_prop)

lemma mapFields_absent:
  "key \<notin> fst ` set row \<Longrightarrow> mapFields row p = Inr p' \<Longrightarrow> map_of p' key = map_of p key"
proof (induction row arbitrary: p)
  case Nil
  then show ?case by simp
next
  case (Cons kv row)
  obtain k raw where kv: "kv = (k, raw)" by (cases kv)
  with Cons.prems have ne: "k \<noteq> key" and notin: "key \<notin> fst ` set row" by auto
  show ?case
  proof (cases "raw = []")
    case True
    with Cons kv notin show ?thesis by simp
  next
    case False
    obtain v where v: "fieldValue k raw = Inr v" using fieldValue_total by blast
    with Cons.prems kv False have "mapFields row (set_prop k v p) = Inr p'" by simp
    from Cons.IH [OF notin this] ne show ?thesis by (simp add: map_of_set_prop)
  qed
qed

text \<open>The value of a field in the payload before the overrides, for a row whose keys are
  distinct, as the keys of an object are.\<close>

lemma mapFields_present:
  assumes "distinct (map fst row)" "map_of row key = Some raw" "raw \<noteq> []" "key \<noteq> ''__proto__''"
    and "mapFields row p = Inr p'" "fieldValue key raw = Inr v"
  shows "map_of p' key = Some v"
  using assms
proof (induction row arbitrary: p)
  case Nil
  then show ?case by simp
next
  case (Cons kv row)
  obtain k r where kv: "kv = (k, r)" by (cases kv)
  show ?case
  proof (cases "k = key")
    case True
    with Cons.prems kv have r: "r = raw" and notin: "key \<notin> fst ` set row" by auto
    with Cons.prems kv True have "mapFields row (set_prop key v p) = Inr p'" by simp
    from mapFields_absent [OF notin this] Cons.prems(4) show ?thesis by (simp add: map_of_set_prop)
  next
    case False
    with Cons.prems kv have d: "distinct (map fst row)" and m: "map_of row key = Some raw" by auto
    show ?thesis
    proof (cases "r = []")
      case True
      with Cons.prems kv have "mapFields row p = Inr p'" by simp
      from Cons.IH [OF d m Cons.prems(3,4) this Cons.prems(6)] show ?thesis .
    next
      case nonempty: False
      obtain u where u: "fieldValue k r = Inr u" using fieldValue_total by blast
      with Cons.prems kv nonempty have "mapFields row (set_prop k u p) = Inr p'" by simp
      from Cons.IH [OF d m Cons.prems(3,4) this Cons.prems(6)] show ?thesis .
    qed
  qed
qed

lemma applyOverrides_other:
  "\<not> overridden e key \<Longrightarrow> map_of (applyOverrides e p) key = map_of p key"
  unfolding applyOverrides_def overridden_def override_def
  by (simp add: map_of_define_prop)

lemma mapRowToPayload_field:
  assumes "distinct (map fst row)" "map_of row key = Some raw" "raw \<noteq> []" "key \<noteq> ''__proto__''"
    and "\<not> overridden e key" "fieldValue key raw = Inr v"
  shows "\<exists>p. mapRowToPayload e row = Inr p \<and> map_of p key = Some v"
proof -
  obtain p where p: "mapFields row [] = Inr p" using mapFields_total by blast
  from mapFields_present [OF assms(1-4) p assms(6)] have "map_of p key = Some v" .
  with applyOverrides_other [OF assms(5), of p] p show ?thesis
    by (simp add: mapRowToPayload_def)
qed

section \<open>Properties of the batch loop\<close>

lemma createCase_index: "createCase post e row i w = (r, effs, w') \<Longrightarrow> index r = i"
  by (auto simp: createCase_def split: sum.splits if_splits prod.splits post_result.splits)

lemma createCase_pacing: "createCase post e row i w = (r, effs, w') \<Longrightarrow> filter pacing effs = [Called i]"
  by (auto simp: createCase_def split: sum.splits if_splits prod.splits post_result.splits)

lemma createCase_posted:
  "createCase post e row i w = (r, effs, w') \<Longrightarrow> Posted j q \<in> set effs \<Longrightarrow>
   j = i \<and> mapRowToPayload e row = Inr q \<and> has_field q ''litigation_id'' \<and> has_field q ''status_id''"
  by (auto simp: createCase_def split: sum.splits if_splits prod.splits post_result.splits)

lemma createCase_missing:
  assumes "mapRowToPayload e row = Inr p"
    and "\<not> has_field p ''litigation_id'' \<or> \<not> has_field p ''status_id''"
  shows "createCase post e row i w =
     (Failure i (if \<not> has_field p ''litigation_id'' then ''Missing required field: litigation_id''
                 else ''Missing required field: status_id''),
      [Called i, ConsoleError i], w)"
  using assms by (auto simp: createCase_def)

lemma uploadStep_mset:
  "mset (map index (processed (uploadStep post e rs i st))) + mset (map index (failures (uploadStep post e rs i st)))
   = mset (map index (processed st)) + mset (map index (failures st)) + {#i#}"
  by (cases "createCase post e (rs ! i) i (world st)")
     (auto simp: uploadStep_def dest: createCase_index)

lemma uploadLoop_mset:
  "mset (map index (processed (uploadLoop post e rs i st))) + mset (map index (failures (uploadLoop post e rs i st)))
   = mset (map index (processed st)) + mset (map index (failures st)) + mset [i..<length rs]"
proof (induction post e rs i st rule: uploadLoop.induct)
  case (1 post e results i st)
  show ?case
  proof (cases "i < length results")
    case True
    then have "[i..<length results] = i # [i + 1..<length results]"
      by (simp add: upt_conv_Cons)
    with True 1 uploadStep_mset [of post e results i st] show ?thesis
      by (subst (1 2) uploadLoop.simps) (simp del: mset_upt)
  next
    case False
    then show ?thesis by (subst (1 2) uploadLoop.simps) simp
  qed
qed

lemma uploadStep_kinds:
  "list_all success (processed st) \<Longrightarrow> list_all (\<lambda>r. \<not> success r) (failures st) \<Longrightarrow>
   list_all success (processed (uploadStep post e rs i st)) \<and>
   list_all (\<lambda>r. \<not> success r) (failures (uploadStep post e rs i st))"
  by (cases "createCase post e (rs ! i) i (world st)") (auto simp: uploadStep_def)

lemma uploadLoop_kinds:
  "list_all success (processed st) \<Longrightarrow> list_all (\<lambda>r. \<not> success r) (failures st) \<Longrightarrow>
   list_all success (processed (uploadLoop post e rs i st)) \<and>
   list_all (\<lambda>r. \<not> success r) (failures (uploadLoop post e rs i st))"
proof (induction post e rs i st rule: uploadLoop.induct)
  case (1 post e results i st)
  show ?case
  proof (cases "i < length results")
    case True
    with 1 uploadStep_kinds [of st post e results i] show ?thesis
      by (subst (1 2) uploadLoop.simps) simp
  next
    case False
    with 1 show ?thesis by (subst (1 2) uploadLoop.simps) simp
  qed
qed

lemma uploadStep_pacing:
  "i < length rs \<Longrightarrow> filter pacing (effects (uploadStep post e rs i st)) =
   filter pacing (effects st) @ Called i # (if i + 1 < length rs then [Delayed RATE_LIMIT_DELAY] else [])"
  by (cases "createCase post e (rs ! i) i (world st)")
     (auto simp: uploadStep_def dest: createCase_pacing)

lemma uploadLoop_pacing:
  "filter pacing (effects (uploadLoop post e rs i st)) = filter pacing (effects st) @ paced_calls i (length rs)"
proof (induction post e rs i st rule: uploadLoop.induct)
  case (1 post e results i st)
  show ?case
  proof (cases "i < length results")
    case True
    then have "[i..<length results] = i # [i + 1..<length results]"
      by (simp add: upt_conv_Cons)
    then have "paced_calls i (length results) =
       Called i # (if i + 1 < length results then [Delayed RATE_LIMIT_DELAY] else []) @ paced_calls (i + 1) (length results)"
      by (simp add: paced_calls_def)
    with True 1 uploadStep_pacing [of i results post e st] show ?thesis
      by (subst uploadLoop.simps) simp
  next
    case False
    then show ?thesis by (subst uploadLoop.simps) (simp add: paced_calls_def)
  qed
qed

lemma paced_calls_delays:
  "i \<le> n \<Longrightarrow> length (filter is_delay (paced_calls i n)) = (n - i) - 1"
proof (induction "n - i" arbitrary: i)
  case 0
  then show ?case by (simp add: paced_calls_def)
next
  case (Suc k)
  then have lt: "i < n" by simp
  then have "[i..<n] = i # [Suc i..<n]" by (simp add: upt_conv_Cons)
  then have "paced_calls i n = Called i # (if i + 1 < n then [Delayed RATE_LIMIT_DELAY] else []) @ paced_calls (Suc i) n"
    by (simp add: paced_calls_def)
  moreover have "length (filter is_delay (paced_calls (Suc i) n)) = (n - Suc i) - 1"
    using Suc lt by (intro Suc.hyps(1)) simp_all
  ultimately show ?case using lt by auto
qed

lemma filter_delay_pacing: "filter is_delay (filter pacing xs) = filter is_delay xs"
proof -
  have "\<And>x. (pacing x \<and> is_delay x) = is_delay x"
    by (case_tac x) simp_all
  then show ?thesis by simp
qed

lemma uploadStep_failures_mono: "set (failures st) \<subseteq> set (failures (uploadStep post e rs i st))"
  by (cases "createCase post e (rs ! i) i (world st)") (auto simp: uploadStep_def)

lemma uploadLoop_failures_mono: "set (failures st) \<subseteq> set (failures (uploadLoop post e rs i st))"
proof (induction post e rs i st rule: uploadLoop.induct)
  case (1 post e results i st)
  show ?case
  proof (cases "i < length results")
    case True
    with 1 uploadStep_failures_mono [of st post e results i] show ?thesis
      by (subst uploadLoop.simps) auto
  next
    case False
    then show ?thesis by (subst uploadLoop.simps) simp
  qed
qed

lemma uploadLoop_failure_recorded:
  assumes "i \<le> j" "j < length rs"
    and "\<And>w'. fst (createCase post e (rs ! j) j w') = Failure j m"
  shows "Failure j m \<in> set (failures (uploadLoop post e rs i st))"
  using assms
proof (induction post e rs i st rule: uploadLoop.induct)
  case (1 post e results i st)
  from 1 have lt: "i < length results" by simp
  show ?case
  proof (cases "i = j")
    case True
    have "Failure j m \<in> set (failures (uploadStep post e results i st))"
      using 1(4) [of "world st"] True
      by (cases "createCase post e (results ! j) j (world st)") (auto simp: uploadStep_def)
    with uploadLoop_failures_mono [of "uploadStep post e results i st" post e results "i + 1"]
    show ?thesis
      using lt by (subst uploadLoop.simps) auto
  next
    case False
    with 1 lt show ?thesis by (subst uploadLoop.simps) simp
  qed
qed

lemma uploadStep_posted:
  "Posted j q \<in> set (effects (uploadStep post e rs i st)) \<Longrightarrow>
   Posted j q \<in> set (effects st) \<or>
   (j = i \<and> mapRowToPayload e (rs ! j) = Inr q \<and> has_field q ''litigation_id'' \<and> has_field q ''status_id'')"
  by (cases "createCase post e (rs ! i) i (world st)")
     (auto simp: uploadStep_def dest: createCase_posted split: if_splits)

lemma uploadLoop_posted:
  "Posted j q \<in> set (effects (uploadLoop post e rs i st)) \<Longrightarrow>
   Posted j q \<in> set (effects st) \<or>
   (mapRowToPayload e (rs ! j) = Inr q \<and> has_field q ''litigation_id'' \<and> has_field q ''status_id'')"
proof (induction post e rs i st rule: uploadLoop.induct)
  case (1 post e results i st)
  show ?case
  proof (cases "i < length results")
    case True
    with 1 have "Posted j q \<in> set (effects (uploadStep post e results i st)) \<or>
       (mapRowToPayload e (results ! j) = Inr q \<and> has_field q ''litigation_id'' \<and> has_field q ''status_id'')"
      by (subst (asm) (2) uploadLoop.simps) simp
    then show ?thesis using uploadStep_posted by blast
  next
    case False
    with 1(2) show ?thesis by (subst (asm) uploadLoop.simps) simp
  qed
qed


lemma filter_call_pacing: "filter is_call (filter pacing xs) = filter is_call xs"
proof -
  have "\<And>x. (pacing x \<and> is_call x) = is_call x"
    by (case_tac x) simp_all
  then show ?thesis by simp
qed

lemma paced_calls_calls: "filter is_call (paced_calls i n) = map Called [i..<n]"
proof -
  have "filter is_call (concat (map (\<lambda>j. Called j # (if j + 1 < n then [Delayed RATE_LIMIT_DELAY] else [])) xs))
        = map Called xs" for xs
    by (induction xs) auto
  then show ?thesis unfolding paced_calls_def .
qed

text \<open>
  Claim C1. Whatever the rows hold and whatever the remote service answers, the loop calls
  \<^verbatim>\<open>createCase\<close> for the rows 0, 1, ..., N - 1 in this order, and every row index is
  in exactly one of the two lists: the indices of the successes and of the failures make up
  0..<N as a multiset, so their numbers add up to N. The successes hold only successful
  results and the failures only failed ones, and the report counts them.
\<close>

theorem submitAll_accounts_for_every_row:
  "length (processed (submitAll post e rows w)) + length (failures (submitAll post e rows w)) = length rows
   \<and> mset (map index (processed (submitAll post e rows w)))
       + mset (map index (failures (submitAll post e rows w))) = mset [0..<length rows]
   \<and> list_all success (processed (submitAll post e rows w))
   \<and> list_all (\<lambda>r. \<not> success r) (failures (submitAll post e rows w))
   \<and> filter is_call (effects (submitAll post e rows w)) = map Called [0..<length rows]
   \<and> successCount (upload post e rows w) + failureCount (upload post e rows w) = length rows
   \<and> totalRows (upload post e rows w) = length rows"
proof -
  let ?st = "submitAll post e rows w"
  have m: "mset (map index (processed ?st)) + mset (map index (failures ?st)) = mset [0..<length rows]"
    unfolding submitAll_def using uploadLoop_mset [of post e rows 0] by simp
  from arg_cong [OF m, of size] have n: "length (processed ?st) + length (failures ?st) = length rows"
    by simp
  have k: "list_all success (processed ?st) \<and> list_all (\<lambda>r. \<not> success r) (failures ?st)"
    unfolding submitAll_def by (rule uploadLoop_kinds) simp_all
  have "filter is_call (filter pacing (effects ?st)) = map Called [0..<length rows]"
    unfolding submitAll_def by (simp add: uploadLoop_pacing paced_calls_calls)
  then have c: "filter is_call (effects ?st) = map Called [0..<length rows]"
    by (simp only: filter_call_pacing)
  from m n k c show ?thesis by (simp add: upload_def Let_def)
qed

lemma demo_run:
  "submitAll demo_remote demo_env demo_rows 0 =
     \<lparr> world = 2,
       processed =
         [Success 0 (JInt 0), Success 2 (JInt 1)],
       failures = [Failure 1 ''Missing required field: status_id''],
       effects =
         [Called 0,
          Posted 0 [(''litigation_id'', JStr (units ''7'')), (''status_id'', JStr (units ''2'')),
                    (''products'', JArr [JStr (units ''a''), JStr (units ''b''), JStr (units ''c'')]),
                    (''company_uuid'', JStr (units ''c-1'')), (''tags'', JArr [JStr (units ''vip'')])],
          Delayed 400,
          Called 1, ConsoleError 1, Delayed 400,
          Called 2,
          Posted 2 [(''litigation_id'', JStr (units ''8'')), (''status_id'', JStr (units ''1'')),
                    (''birthday'', JStr (units ''2024-03-04'')),
                    (''company_uuid'', JStr (units ''c-1'')), (''tags'', JArr [JStr (units ''vip'')])]] \<rparr>"
  by code_simp

theorem submitAll_accounts_for_every_row_witness:
  "length (processed (submitAll demo_remote demo_env demo_rows 0))
     + length (failures (submitAll demo_remote demo_env demo_rows 0)) = 3
   \<and> map index (processed (submitAll demo_remote demo_env demo_rows 0)) = [0, 2]
   \<and> failures (submitAll demo_remote demo_env demo_rows 0) = [Failure 1 ''Missing required field: status_id'']
   \<and> successCount (upload demo_remote demo_env demo_rows 0) = 2
   \<and> failureCount (upload demo_remote demo_env demo_rows 0) = 1
   \<and> failed (upload demo_remote demo_env demo_rows 0) = [(2, ''Missing required field: status_id'')]"
proof -
  have len: "length demo_rows = 3" by (simp add: demo_rows_def)
  show ?thesis
    using submitAll_accounts_for_every_row [of demo_remote demo_env demo_rows 0]
    by (simp add: demo_run upload_def len)
qed

text \<open>
  Claim C5. For a batch of N rows, N at least 1, \<^verbatim>\<open>delay\<close> is called N - 1 times,
  whatever happens to the rows: in the trace, the call for each row but the last is followed
  by one delay of 400 ms before the next call, and nothing follows the call for the last.
\<close>

theorem delay_between_rows_only:
  assumes "rows \<noteq> []"
  shows "length (filter is_delay (effects (submitAll post e rows w))) = length rows - 1
       \<and> filter pacing (effects (submitAll post e rows w)) = paced_calls 0 (length rows)"
proof -
  have p: "filter pacing (effects (submitAll post e rows w)) = paced_calls 0 (length rows)"
    unfolding submitAll_def by (simp add: uploadLoop_pacing)
  have "filter is_delay (effects (submitAll post e rows w))
        = filter is_delay (filter pacing (effects (submitAll post e rows w)))"
    by (simp only: filter_delay_pacing)
  also have "\<dots> = filter is_delay (paced_calls 0 (length rows))"
    by (simp only: p)
  finally have "length (filter is_delay (effects (submitAll post e rows w))) = length rows - 1"
    using paced_calls_delays [of 0 "length rows"] by simp
  with p show ?thesis by simp
qed

theorem delay_between_rows_only_witness:
  "demo_rows \<noteq> []
   \<and> length (filter is_delay (effects (submitAll demo_remote demo_env demo_rows 0))) = 2
   \<and> filter pacing (effects (submitAll demo_remote demo_env demo_rows 0)) =
       [Called 0, Delayed 400, Called 1, Delayed 400, Called 2]"
proof -
  have ne: "demo_rows \<noteq> []" by (simp add: demo_rows_def)
  have "length demo_rows = 3" by (simp add: demo_rows_def)
  moreover have "paced_calls 0 3 = [Called 0, Delayed 400, Called 1, Delayed 400, Called 2]"
    by code_simp
  ultimately show ?thesis using ne delay_between_rows_only [OF ne, of demo_remote demo_env 0]
    by simp
qed

text \<open>
  Claim C2. When the payload of row \<open>i\<close> has no (truthy) \<^verbatim>\<open>litigation_id\<close> or no
  \<^verbatim>\<open>status_id\<close>, the batch records the failure of row \<open>i\<close> with the message naming the
  field (the litigation identifier first when both are missing), reports it under row
  \<open>i + 1\<close>, and never posts for row \<open>i\<close>: \<^verbatim>\<open>createCase\<close> returns without touching the
  remote service.
\<close>

theorem missing_required_field_fails_before_post:
  assumes "i < length rows" and "mapRowToPayload e (rows ! i) = Inr p"
    and "\<not> has_field p ''litigation_id'' \<or> \<not> has_field p ''status_id''"
  shows "Failure i (if \<not> has_field p ''litigation_id'' then ''Missing required field: litigation_id''
                    else ''Missing required field: status_id'')
           \<in> set (failures (submitAll post e rows w))
       \<and> (\<forall>q. Posted i q \<notin> set (effects (submitAll post e rows w)))
       \<and> (i + 1, if \<not> has_field p ''litigation_id'' then ''Missing required field: litigation_id''
                  else ''Missing required field: status_id'')
           \<in> set (failed (upload post e rows w))
       \<and> createCase post e (rows ! i) i w =
           (Failure i (if \<not> has_field p ''litigation_id'' then ''Missing required field: litigation_id''
                       else ''Missing required field: status_id''),
            [Called i, ConsoleError i], w)"
proof -
  let ?m = "if \<not> has_field p ''litigation_id'' then ''Missing required field: litigation_id''
            else ''Missing required field: status_id''"
  have cc: "\<And>w'. createCase post e (rows ! i) i w' = (Failure i ?m, [Called i, ConsoleError i], w')"
    by (rule createCase_missing [OF assms(2,3)])
  have f: "Failure i ?m \<in> set (failures (submitAll post e rows w))"
    unfolding submitAll_def
    by (rule uploadLoop_failure_recorded) (simp_all add: assms(1) cc)
  have "\<And>q. Posted i q \<notin> set (effects (submitAll post e rows w))"
  proof
    fix q assume "Posted i q \<in> set (effects (submitAll post e rows w))"
    from uploadLoop_posted [OF this [unfolded submitAll_def]] assms(2,3) show False by auto
  qed
  moreover from f have "failureLine (Failure i ?m) \<in> set (failed (upload post e rows w))"
    unfolding upload_def Let_def by (simp del: failureLine.simps)
  ultimately show ?thesis using f cc [of w] by simp
qed

theorem missing_required_field_fails_before_post_witness:
  "mapRowToPayload demo_env (demo_rows ! 1) =
     Inr [(''litigation_id'', JStr (units ''7'')), (''conditions'', JArr [JInt 1, JInt 2, JInt 4]),
          (''company_uuid'', JStr (units ''c-1'')), (''tags'', JArr [JStr (units ''vip'')])]
   \<and> Failure 1 ''Missing required field: status_id''
        \<in> set (failures (submitAll demo_remote demo_env demo_rows 0))
   \<and> (\<forall>q. Posted 1 q \<notin> set (effects (submitAll demo_remote demo_env demo_rows 0)))
   \<and> (2, ''Missing required field: status_id'') \<in> set (failed (upload demo_remote demo_env demo_rows 0))"
proof -
  let ?p = "[(''litigation_id'', JStr (units ''7'')), (''conditions'', JArr [JInt 1, JInt 2, JInt 4]),
          (''company_uuid'', JStr (units ''c-1'')), (''tags'', JArr [JStr (units ''vip'')])]"
  have i: "1 < length demo_rows" by (simp add: demo_rows_def)
  have p: "mapRowToPayload demo_env (demo_rows ! 1) = Inr ?p" by code_simp
  have l: "has_field ?p ''litigation_id''" by code_simp
  have s: "\<not> has_field ?p ''status_id''" by code_simp
  from s have h: "\<not> has_field ?p ''litigation_id'' \<or> \<not> has_field ?p ''status_id''" by blast
  from missing_required_field_fails_before_post [OF i p h, of demo_remote 0] l p
  show ?thesis by (simp add: numeral_2_eq_2)
qed

section \<open>Properties of the field rules\<close>

lemma string_array_value:
  "key \<in> set arrayFields \<Longrightarrow> key \<notin> set intArrayFields \<Longrightarrow>
   fieldValue key raw =
     Inr (JArr (map (\<lambda>item. JStr (units item)) (map cleanArrayValue (js_split (CHR '','') raw))))"
  by (auto simp: fieldValue_def arrayFields_def intArrayFields_def)

lemma split_example: "js_split (CHR '','') ''[a, b],c'' = [''[a'', '' b]'', ''c'']"
  by simp

lemma clean_example: "map cleanArrayValue [''[a'', '' b]'', ''c''] = [''a'', ''b'', ''c'']"
  by (simp add: cleanArrayValue_def trim_def is_space_def)

lemma clean_bracketed: "cleanArrayValue (CHR ''['' # x @ '']'') = trim x"
  by (simp add: cleanArrayValue_def)

text \<open>
  Claim C9. For every string-array field (an array field that is not an integer-array
  field: \<^verbatim>\<open>products\<close>, \<^verbatim>\<open>tags\<close>) the rule splits the raw value on commas and then
  cleans each piece on its own: a piece loses one opening bracket at its start, one closing
  bracket at its end and then the white space around it. So \<^verbatim>\<open>[a, b],c\<close> is split into
  \<^verbatim>\<open>[a\<close>, \<^verbatim>\<open> b]\<close> and \<^verbatim>\<open>c\<close> and gives exactly the array of \<^verbatim>\<open>a\<close>, \<^verbatim>\<open>b\<close> and
  \<^verbatim>\<open>c\<close>; the loop over the fields stores this array under the key, and it is the value in
  the payload unless the environment overrides the key.
\<close>

theorem string_array_split_before_strip:
  assumes "key \<in> set arrayFields" and "key \<notin> set intArrayFields"
  shows "fieldValue key raw =
           Inr (JArr (map (\<lambda>item. JStr (units item))
                        (map cleanArrayValue (js_split (CHR '','') raw))))
     \<and> js_split (CHR '','') ''[a, b],c'' = [''[a'', '' b]'', ''c'']
     \<and> map cleanArrayValue [''[a'', '' b]'', ''c''] = [''a'', ''b'', ''c'']
     \<and> (\<forall>x. cleanArrayValue (CHR ''['' # x @ '']'') = trim x)
     \<and> fieldValue key ''[a, b],c'' =
           Inr (JArr [JStr (units ''a''), JStr (units ''b''), JStr (units ''c'')])
     \<and> (\<forall>row p. distinct (map fst row) \<and> map_of row key = Some ''[a, b],c''
            \<and> mapFields row [] = Inr p
          \<longrightarrow> map_of p key = Some (JArr [JStr (units ''a''), JStr (units ''b''), JStr (units ''c'')]))
     \<and> (\<forall>row e. distinct (map fst row) \<and> map_of row key = Some ''[a, b],c'' \<and> \<not> overridden e key
          \<longrightarrow> (\<exists>p. mapRowToPayload e row = Inr p \<and>
                 map_of p key = Some (JArr [JStr (units ''a''), JStr (units ''b''), JStr (units ''c'')])))"
proof -
  from assms have proto: "key \<noteq> ''__proto__''" by (auto simp: arrayFields_def)
  have "map cleanArrayValue (js_split (CHR '','') ''[a, b],c'') = [''a'', ''b'', ''c'']"
    by (simp only: split_example clean_example)
  then have v: "fieldValue key ''[a, b],c'' =
      Inr (JArr [JStr (units ''a''), JStr (units ''b''), JStr (units ''c'')])"
    by (simp only: string_array_value [OF assms] list.map)
  have loop: "map_of p key = Some (JArr [JStr (units ''a''), JStr (units ''b''), JStr (units ''c'')])"
    if "distinct (map fst row)" "map_of row key = Some ''[a, b],c''" "mapFields row [] = Inr p"
    for row p
    using mapFields_present [OF that(1,2) _ proto that(3) v] by simp
  have whole: "\<exists>p. mapRowToPayload e row = Inr p \<and>
      map_of p key = Some (JArr [JStr (units ''a''), JStr (units ''b''), JStr (units ''c'')])"
    if "distinct (map fst row)" "map_of row key = Some ''[a, b],c''" "\<not> overridden e key"
    for row e
    using mapRowToPayload_field [OF that(1,2) _ proto that(3) v] by simp
  from string_array_value [OF assms, of raw] split_example clean_example clean_bracketed v loop whole
  show ?thesis by blast
qed

theorem string_array_split_before_strip_witness:
  "''tags'' \<in> set arrayFields \<and> ''tags'' \<notin> set intArrayFields
   \<and> fieldValue ''tags'' ''[a, b],c'' =
        Inr (JArr [JStr (units ''a''), JStr (units ''b''), JStr (units ''c'')])
   \<and> fieldValue ''products'' ''[a, b],c'' =
        Inr (JArr [JStr (units ''a''), JStr (units ''b''), JStr (units ''c'')])
   \<and> (\<exists>p. mapRowToPayload demo_env (demo_rows ! 0) = Inr p \<and>
         map_of p ''products'' = Some (JArr [JStr (units ''a''), JStr (units ''b''), JStr (units ''c'')]))"
proof -
  have t: "''tags'' \<in> set arrayFields" "''tags'' \<notin> set intArrayFields"
    and p: "''products'' \<in> set arrayFields" "''products'' \<notin> set intArrayFields"
    by (simp_all add: arrayFields_def intArrayFields_def)
  have r: "demo_rows ! 0 = [(''litigation_id'', ''7''), (''status_id'', ''2''), (''products'', ''[a, b],c'')]"
    by (simp add: demo_rows_def)
  have d: "distinct (map fst (demo_rows ! 0))" "map_of (demo_rows ! 0) ''products'' = Some ''[a, b],c''"
    by (simp_all add: r)
  have o: "\<not> overridden demo_env ''products''" by (simp add: overridden_def)
  from string_array_split_before_strip [OF t] string_array_split_before_strip [OF p] d o t
  show ?thesis by blast
qed

text \<open>The override of \<^verbatim>\<open>tags\<close> comes after the loop and replaces what the rule stored.\<close>

lemma configured_tags_replace_the_array:
  "mapRowToPayload demo_env [(''tags'', ''[a, b],c'')] =
     Inr [(''tags'', JArr [JStr (units ''vip'')]), (''company_uuid'', JStr (units ''c-1''))]"
  by code_simp














text \<open>
  Claim C3 at its own input. For the meta text \<^verbatim>\<open>{gender: Male, age: 30}\<close> the first
  strategy succeeds, and the values it reads keep the blank that follows each colon: the
  payload holds \<^verbatim>\<open>" Male"\<close> and \<^verbatim>\<open>" 30"\<close>, not \<^verbatim>\<open>"Male"\<close> and \<^verbatim>\<open>"30"\<close>. And a text
  neither strategy finds a pair in, \<^verbatim>\<open>hello\<close>, is not kept: the second strategy cannot
  raise, so the payload holds its empty object.
\<close>

theorem meta_example_keeps_blanks:
  "mapRowToPayload plain_env [(''meta'', ''{gender: Male, age: 30}'')] =
     Inr [(''meta'', JObj [(units ''gender'', JStr (units '' Male'')),
                           (units ''age'', JStr (units '' 30''))])]
   \<and> strategyA ''hello'' = Inl SyntaxError
   \<and> mapRowToPayload plain_env [(''meta'', ''hello'')] = Inr [(''meta'', JObj [])]"
  by code_simp

text \<open>For a string the last resort of the meta rule is never taken: the value is what the
  first strategy parsed or the object the second one built.\<close>

lemma metaValue_never_raw:
  "metaValue raw = (case strategyA raw of Inr v \<Rightarrow> Inr v | Inl err \<Rightarrow> strategyB raw)"
  by (simp add: metaValue_def strategyB_def split: sum.splits)

section \<open>Properties of the fetch loops\<close>




text \<open>
  The loop of the second \<^verbatim>\<open>/check-duplicates\<close> handler, which the server never runs,
  is written otherwise: at an empty page that carries a total above the number of cases
  fetched it waits and asks for the next page, and it never ends when every page is such.
\<close>

lemma unreached_bulk_fetch_continues:
  "bulkFetch 2 total_without_items = Some (Inr ([], [Get 1, Wait 200, Get 2]))"
  by code_simp

lemma unreached_bulk_fetch_never_ends:
  "bulkFetchLoop budget empty_pages_with_total page [] tr = None"
  by (induction budget arbitrary: page tr)
     (simp_all add: empty_pages_with_total_def bulkHasMore_def page_cases_def truthy_num_def)

section \<open>Properties of the duplicate detectors\<close>

text \<open>
  Claim C7 at a failing input. The matcher lower-cases the row's fields and does not trim
  them: a first name with a leading blank does not match the same name without it, though
  the two agree once trimmed; without the blank the row is flagged. And a row whose only
  field is a blank, empty once trimmed, is flagged against a case with the same blank.
\<close>

theorem duplicate_match_does_not_trim:
  "findDuplicates [[(''fname'', '' Jane''), (''lname'', ''Doe''), (''email'', [])]] demo_cases = []
   \<and> findDuplicates [[(''fname'', ''Jane''), (''lname'', ''Doe''), (''email'', [])]] demo_cases = [0]
   \<and> findDuplicates [[(''fname'', '' '')]]
        [\<lparr> fname_injured = Some '' '', lname_injured = None, email_injured = None \<rparr>] = [0]"
  by code_simp

text \<open>
  Claim C8. The two detectors present in the source differ. A row with a first and a last
  name and no email is flagged by the matcher on three fields, against a case with these
  names. The look-up by email never flags it: as the file stands the handler fails on the
  undeclared \<^verbatim>\<open>pLimit\<close> and answers no duplicate, and with \<^verbatim>\<open>pLimit\<close> bound the
  look-up finds no case under the empty email. So whatever \<^verbatim>\<open>pLimit\<close> is, some rows and
  cases give the two detectors different sets of duplicates.
\<close>

theorem detectors_differ:
  "findDuplicates [[(''fname'', ''Jane''), (''lname'', ''Doe''), (''email'', [])]] demo_cases = [0]
   \<and> findDuplicatesByEmail NotDeclared [[(''fname'', ''Jane''), (''lname'', ''Doe''), (''email'', [])]]
        demo_cases = Inl ReferenceError
   \<and> findDuplicatesByEmail BoundedPool [[(''fname'', ''Jane''), (''lname'', ''Doe''), (''email'', [])]]
        demo_cases = Inr []
   \<and> (\<forall>pLimit. resp_duplicates (emailCheckResponse pLimit
          [[(''fname'', ''Jane''), (''lname'', ''Doe''), (''email'', [])]] demo_cases) = [])
   \<and> (\<forall>pLimit. \<exists>rows allCases.
          resp_duplicates (emailCheckResponse pLimit rows allCases) \<noteq> findDuplicates rows allCases)"
proof -
  let ?rows = "[[(''fname'', ''Jane''), (''lname'', ''Doe''), (''email'', [])]]"
  have a: "findDuplicates ?rows demo_cases = [0]"
    by code_simp
  have n: "findDuplicatesByEmail NotDeclared ?rows demo_cases = Inl ReferenceError"
    by (simp add: findDuplicatesByEmail_def)
  have b: "findDuplicatesByEmail BoundedPool ?rows demo_cases = Inr []"
    by code_simp
  have r: "resp_duplicates (emailCheckResponse pLimit ?rows demo_cases) = []" for pLimit
    using n b by (cases pLimit) (simp_all add: emailCheckResponse_def)
  from a r have "resp_duplicates (emailCheckResponse pLimit ?rows demo_cases)
      \<noteq> findDuplicates ?rows demo_cases" for pLimit
    by simp
  then have "\<forall>pLimit. \<exists>rows allCases.
      resp_duplicates (emailCheckResponse pLimit rows allCases) \<noteq> findDuplicates rows allCases"
    by blast
  with a n b r show ?thesis by blast
qed

text \<open>As the file stands the look-up by email answers no duplicate for any rows and cases.\<close>

lemma undeclared_pLimit_answers_500:
  "emailCheckResponse NotDeclared rows allCases = \<lparr> resp_status = 500, resp_duplicates = [] \<rparr>"
  by (simp add: emailCheckResponse_def findDuplicatesByEmail_def)

end
